theory Spec2Isabelle
  imports Complex_Main
begin

section \<open>The radiometry module \<open>SNR.py\<close>\<close>

text \<open>
  The module holds three constant tables keyed by band, two instrument constants and the
  three functions \<open>snr\<close>, \<open>etc\<close> and \<open>limit\<close>. Python floats are modelled by the
  real numbers, so every statement below is about exact arithmetic: rounding, overflow
  and underflow of IEEE doubles are outside the model. Division is true division (the
  module asks for it with \<open>from __future__ import division\<close>). The calls to
  \<open>print\<close> have no effect on any returned value and are left out. The model is of
  the three function bodies and the constants; the order of the import statements at the
  head of the file is not part of any of them.
\<close>

subsection \<open>Exceptions\<close>

text \<open>
  The exceptions the three functions can raise: \<open>KeyError\<close> from a subscript of a
  constant table, \<open>ZeroDivisionError\<close> from \<open>/\<close>, and \<open>ValueError\<close> (math domain
  error) from \<open>math.sqrt\<close> of a negative number and \<open>math.log10\<close> of a non-positive
  one. A raised exception is the value \<open>Inl\<close>, a returned value is \<open>Inr\<close>.
\<close>

datatype error = KeyError | ZeroDivisionError | ValueError

definition and_then :: "error + 'a \<Rightarrow> ('a \<Rightarrow> error + 'b) \<Rightarrow> error + 'b" where
  "and_then m f = (case m of Inl e \<Rightarrow> Inl e | Inr v \<Rightarrow> f v)"

definition lookup :: "(string \<rightharpoonup> real) \<Rightarrow> string \<Rightarrow> error + real" where
  "lookup table band = (case table band of None \<Rightarrow> Inl KeyError | Some v \<Rightarrow> Inr v)"

definition py_div :: "real \<Rightarrow> real \<Rightarrow> error + real" where
  "py_div x y = (if y = 0 then Inl ZeroDivisionError else Inr (x / y))"

definition py_sqrt :: "real \<Rightarrow> error + real" where
  "py_sqrt x = (if x < 0 then Inl ValueError else Inr (sqrt x))"

definition py_log10 :: "real \<Rightarrow> error + real" where
  "py_log10 x = (if x \<le> 0 then Inl ValueError else Inr (log 10 x))"

subsection \<open>Constant tables (lines 7 to 19)\<close>

definition sky_mu :: "string \<rightharpoonup> real" where
  "sky_mu = [''g'' \<mapsto> 22, ''r'' \<mapsto> 21]"

definition dark_current :: real where
  "dark_current = 4 / 100"

definition read_noise :: real where
  "read_noise = 10"

definition gamma0 :: "string \<rightharpoonup> real" where
  "gamma0 = [''g'' \<mapsto> 1790000000, ''r'' \<mapsto> 1160000000]"

definition efficiency :: "string \<rightharpoonup> real" where
  "efficiency = [''g'' \<mapsto> 34 / 100, ''r'' \<mapsto> 35 / 100]"

subsection \<open>Count rates (lines 25, 28, 57, 60, 86)\<close>

text \<open>
  The expression \<open>gamma0[band] * N * efficiency[band] * 10**(-0.4 * sci_mu)\<close>, and the
  same expression with \<open>sky_mu[band]\<close> for the magnitude. The subscripts are evaluated
  from left to right.
\<close>

definition rate_sci :: "string \<Rightarrow> real \<Rightarrow> real \<Rightarrow> error + real" where
  "rate_sci band N sci_mu =
     and_then (lookup gamma0 band) (\<lambda>g.
     and_then (lookup efficiency band) (\<lambda>e.
     Inr (g * N * e * 10 powr (- 0.4 * sci_mu))))"

definition rate_sky :: "string \<Rightarrow> real \<Rightarrow> error + real" where
  "rate_sky band N =
     and_then (lookup gamma0 band) (\<lambda>g.
     and_then (lookup efficiency band) (\<lambda>e.
     and_then (lookup sky_mu band) (\<lambda>m.
     Inr (g * N * e * 10 powr (- 0.4 * m)))))"

subsection \<open>Number of sub-exposures (lines 31 to 33, and 89 to 91)\<close>

text \<open>
  \<open>number_subs = int(math.ceil(total_exp_time/sub_exp_time))\<close>, then the total
  exposure time is replaced by \<open>number_subs * sub_exp_time\<close> when \<open>round_up\<close> is set
  and the two differ. The result is the pair of \<open>number_subs\<close> and the total exposure
  time used from there on.
\<close>

definition sub_exposures :: "real \<Rightarrow> real \<Rightarrow> bool \<Rightarrow> error + (int \<times> real)" where
  "sub_exposures total_exp_time sub_exp_time round_up =
     and_then (py_div total_exp_time sub_exp_time) (\<lambda>q.
       let number_subs = \<lceil>q\<rceil> in
       if round_up \<and> total_exp_time \<noteq> of_int number_subs * sub_exp_time
       then Inr (number_subs, of_int number_subs * sub_exp_time)
       else Inr (number_subs, total_exp_time))"

subsection \<open>\<open>snr\<close> (lines 22 to 48)\<close>

definition snr :: "real \<Rightarrow> string \<Rightarrow> real \<Rightarrow> real \<Rightarrow> real \<Rightarrow> real \<Rightarrow> bool \<Rightarrow> error + real" where
  "snr sci_mu band total_exp_time sub_exp_time binning N round_up =
     and_then (rate_sci band N sci_mu) (\<lambda>rate_sci.
     and_then (rate_sky band N) (\<lambda>rate_sky.
     and_then (sub_exposures total_exp_time sub_exp_time round_up) (\<lambda>(number_subs, total_exp_time).
       let signal = rate_sci * total_exp_time;
           sky_counts = rate_sky * total_exp_time;
           dark_counts = dark_current * total_exp_time
       in
     and_then (py_sqrt (of_int number_subs)) (\<lambda>root_subs.
       let total_read_noise = root_subs * read_noise in
     and_then (py_sqrt (signal + sky_counts + dark_counts + total_read_noise\<^sup>2)) (\<lambda>noise.
     py_div (binning * signal) noise)))))"

subsection \<open>\<open>etc\<close> (lines 51 to 77)\<close>

text \<open>
  The \<open>while\<close> loop of lines 73 to 75, started at \<open>number_subs\<close>; \<open>snr_target\<close> is the
  target already divided by the binning. A loop that runs forever has the value \<open>None\<close>;
  an exception raised by \<open>snr\<close> leaves the loop.
\<close>

partial_function (option) etc_loop ::
  "real \<Rightarrow> string \<Rightarrow> real \<Rightarrow> real \<Rightarrow> real \<Rightarrow> real \<Rightarrow> int \<Rightarrow> (error + int) option" where
  "etc_loop sci_mu band snr_target sub_exp_time binning N number_subs =
     (case snr sci_mu band (of_int number_subs * sub_exp_time) sub_exp_time binning N False of
        Inl e \<Rightarrow> Some (Inl e)
      | Inr s \<Rightarrow>
          if s < snr_target
          then etc_loop sci_mu band snr_target sub_exp_time binning N (number_subs + 1)
          else Some (Inr number_subs))"

text \<open>
  Lines 54 to 70: the target per unbinned pixel, the two count rates, the estimate of the
  total exposure time and the first number of sub-exposures. The count is the ceiling of
  the exact quotient here; the doubles of the code round the estimate, so the code can
  start its loop at a neighbouring count (and further off at very large counts). What is
  stated about the loop further down is therefore stated for every count it may be
  started at.
\<close>

definition etc_start :: "real \<Rightarrow> string \<Rightarrow> real \<Rightarrow> real \<Rightarrow> real \<Rightarrow> real \<Rightarrow> error + (real \<times> int)" where
  "etc_start sci_mu band snr_target sub_exp_time binning N =
     and_then (py_div snr_target binning) (\<lambda>snr_target.
     and_then (rate_sci band N sci_mu) (\<lambda>rate_sci.
     and_then (rate_sky band N) (\<lambda>rate_sky.
     and_then (py_div (read_noise\<^sup>2) sub_exp_time) (\<lambda>read_term.
     and_then (py_div (snr_target\<^sup>2 * (rate_sci + rate_sky + dark_current + read_term)) (rate_sci\<^sup>2))
       (\<lambda>total_exp_time.
     and_then (py_div total_exp_time sub_exp_time) (\<lambda>q.
     Inr (snr_target, \<lceil>q\<rceil>)))))))"

definition etc :: "real \<Rightarrow> string \<Rightarrow> real \<Rightarrow> real \<Rightarrow> real \<Rightarrow> real \<Rightarrow> (error + (real \<times> int)) option" where
  "etc sci_mu band snr_target sub_exp_time binning N =
     (case etc_start sci_mu band snr_target sub_exp_time binning N of
        Inl e \<Rightarrow> Some (Inl e)
      | Inr (snr_target, number_subs) \<Rightarrow>
          (case etc_loop sci_mu band snr_target sub_exp_time binning N number_subs of
             None \<Rightarrow> None
           | Some (Inl e) \<Rightarrow> Some (Inl e)
           | Some (Inr number_subs) \<Rightarrow> Some (Inr (of_int number_subs * sub_exp_time, number_subs))))"

subsection \<open>\<open>limit\<close> (lines 80 to 108)\<close>

text \<open>
  Lines 83 to 102: the coefficients \<open>a\<close>, \<open>b\<close> and \<open>c\<close> of the quadratic in the
  science count rate.
\<close>

definition limit_quadratic ::
  "string \<Rightarrow> real \<Rightarrow> real \<Rightarrow> real \<Rightarrow> real \<Rightarrow> real \<Rightarrow> bool \<Rightarrow> error + (real \<times> real \<times> real)" where
  "limit_quadratic band total_exp_time snr_target sub_exp_time binning N round_up =
     and_then (py_div snr_target binning) (\<lambda>snr_target.
     and_then (rate_sky band N) (\<lambda>rate_sky.
     and_then (sub_exposures total_exp_time sub_exp_time round_up) (\<lambda>(number_subs, total_exp_time).
       let sky_counts = rate_sky * total_exp_time;
           dark_counts = dark_current * total_exp_time
       in
     and_then (py_sqrt (of_int number_subs)) (\<lambda>root_subs.
       let total_read_noise = root_subs * read_noise;
           a = total_exp_time\<^sup>2;
           b = - (snr_target\<^sup>2) * total_exp_time;
           c = - (snr_target\<^sup>2) * (sky_counts + dark_counts + total_read_noise\<^sup>2)
       in Inr (a, b, c)))))"

text \<open>Line 103: the argument of the square root.\<close>

definition discriminant :: "real \<times> real \<times> real \<Rightarrow> real" where
  "discriminant q = (case q of (a, b, c) \<Rightarrow> b\<^sup>2 - 4 * a * c)"

text \<open>
  Lines 103 to 108: the root of the quadratic and its conversion to a magnitude. Over the
  reals the powers of lines 100 to 103 neither overflow nor underflow to zero, which the
  doubles of the code do for extreme targets and exposure times.
\<close>

definition limit :: "string \<Rightarrow> real \<Rightarrow> real \<Rightarrow> real \<Rightarrow> real \<Rightarrow> real \<Rightarrow> bool \<Rightarrow> error + real" where
  "limit band total_exp_time snr_target sub_exp_time binning N round_up =
     and_then (limit_quadratic band total_exp_time snr_target sub_exp_time binning N round_up)
       (\<lambda>(a, b, c).
     and_then (py_sqrt (discriminant (a, b, c))) (\<lambda>root.
     and_then (py_div (- b + root) (2 * a)) (\<lambda>rate_sci.
     and_then (lookup gamma0 band) (\<lambda>g.
     and_then (lookup efficiency band) (\<lambda>e.
     and_then (py_div rate_sci (g * N * e)) (\<lambda>ratio.
     and_then (py_log10 ratio) (\<lambda>l.
     Inr (- 2.5 * l))))))))"

subsection \<open>Comparing results\<close>

text \<open>
  Both calls return a number, and the first number is below the second (strictly for
  \<open>result_less\<close>). A call that raises is in neither relation with anything.
\<close>

definition result_less :: "error + real \<Rightarrow> error + real \<Rightarrow> bool" where
  "result_less x y = (case (x, y) of (Inr a, Inr b) \<Rightarrow> a < b | _ \<Rightarrow> False)"

definition result_le :: "error + real \<Rightarrow> error + real \<Rightarrow> bool" where
  "result_le x y = (case (x, y) of (Inr a, Inr b) \<Rightarrow> a \<le> b | _ \<Rightarrow> False)"

section \<open>Basic facts about the model\<close>

subsection \<open>The tables and the count rates\<close>

lemma known_band: "band \<in> dom gamma0 \<longleftrightarrow> band = ''g'' \<or> band = ''r''"
  by (auto simp: gamma0_def)

lemma tables_same_keys: "dom efficiency = dom gamma0" "dom sky_mu = dom gamma0"
  by (auto simp: gamma0_def efficiency_def sky_mu_def)

lemma table_positive:
  assumes "gamma0 band = Some g" "efficiency band = Some e"
  shows "0 < g" "0 < e"
  using assms by (auto simp: gamma0_def efficiency_def split: if_splits)

lemma table_values:
  assumes "band \<in> dom gamma0"
  shows "\<exists>g e m. gamma0 band = Some g \<and> efficiency band = Some e \<and> sky_mu band = Some m"
proof -
  from assms have "band \<in> dom efficiency" "band \<in> dom sky_mu"
    by (simp_all add: tables_same_keys)
  with assms show ?thesis by blast
qed

lemma rate_sci_known:
  assumes "gamma0 band = Some g" "efficiency band = Some e"
  shows "rate_sci band N mu = Inr (g * N * e * 10 powr (- 0.4 * mu))"
  using assms by (simp add: rate_sci_def lookup_def and_then_def)

lemma rate_sky_known:
  assumes "gamma0 band = Some g" "efficiency band = Some e" "sky_mu band = Some m"
  shows "rate_sky band N = Inr (g * N * e * 10 powr (- 0.4 * m))"
  using assms by (simp add: rate_sky_def lookup_def and_then_def)

lemma rates_known:
  assumes "band \<in> dom gamma0"
  shows "\<exists>c k. 0 < c \<and> 0 < k \<and> (\<forall>N mu. rate_sci band N mu = Inr (c * N * 10 powr (- 0.4 * mu)))
     \<and> (\<forall>N. rate_sky band N = Inr (k * N))"
proof -
  obtain g e m where t: "gamma0 band = Some g" "efficiency band = Some e" "sky_mu band = Some m"
    using table_values[OF assms] by blast
  have p: "0 < g" "0 < e" using t table_positive by blast+
  have "\<forall>N mu. rate_sci band N mu = Inr (g * e * N * 10 powr (- 0.4 * mu))"
    using t by (simp add: rate_sci_known mult_ac)
  moreover have "\<forall>N. rate_sky band N = Inr (g * e * 10 powr (- 0.4 * m) * N)"
    using t by (simp add: rate_sky_known mult_ac)
  moreover have "0 < g * e" "0 < g * e * 10 powr (- 0.4 * m)" using p by simp_all
  ultimately show ?thesis by blast
qed

lemma unknown_band_rates:
  assumes "band \<notin> dom gamma0"
  shows "rate_sci band N mu = Inl KeyError" "rate_sky band N = Inl KeyError"
  using assms by (simp_all add: rate_sci_def rate_sky_def lookup_def and_then_def domIff)

subsection \<open>Sub-exposures and the value of \<open>snr\<close>\<close>

lemma sub_exposures_eq:
  "sub \<noteq> 0 \<Longrightarrow> sub_exposures t sub ru = Inr (\<lceil>t / sub\<rceil>, if ru then of_int \<lceil>t / sub\<rceil> * sub else t)"
  by (auto simp: sub_exposures_def py_div_def and_then_def Let_def)

lemma sub_exposures_zero: "sub_exposures t 0 ru = Inl ZeroDivisionError"
  by (simp add: sub_exposures_def py_div_def and_then_def)

lemma snr_unfold:
  assumes "rate_sci band N mu = Inr rs" "rate_sky band N = Inr rk" "sub \<noteq> 0"
  shows "snr mu band t sub b N ru =
    (let n = \<lceil>t / sub\<rceil>;
         t' = (if ru then of_int n * sub else t);
         v = rs * t' + rk * t' + dark_current * t' + of_int n * read_noise\<^sup>2
     in if n < 0 then Inl ValueError
        else if v < 0 then Inl ValueError
        else if v = 0 then Inl ZeroDivisionError
        else Inr (b * (rs * t') / sqrt v))"
  using assms
  by (simp add: snr_def and_then_def sub_exposures_eq
      py_sqrt_def py_div_def Let_def power_mult_distrib)

lemma snr_zero_sub:
  assumes "band \<in> dom gamma0"
  shows "snr mu band t 0 b N ru = Inl ZeroDivisionError"
proof -
  obtain c k where "rate_sci band N mu = Inr (c * N * 10 powr (- 0.4 * mu))"
      "rate_sky band N = Inr (k * N)"
    using rates_known[OF assms] by blast
  then show ?thesis
    by (simp add: snr_def and_then_def sub_exposures_zero)
qed

lemma ceiling_pos_div: "0 < (t::real) \<Longrightarrow> 0 < sub \<Longrightarrow> 1 \<le> \<lceil>t / sub\<rceil>"
  by (simp add: less_ceiling_iff flip: zless_iff_Suc_zadd int_one_le_iff_zero_less)

lemma effective_time_pos:
  assumes "0 < (t::real)" "0 < sub"
  shows "0 < (if ru then of_int \<lceil>t / sub\<rceil> * sub else t)"
  using ceiling_pos_div[OF assms] assms by simp

lemma noise_arg_pos:
  assumes "0 \<le> rs" "0 \<le> rk" "0 \<le> (t'::real)" "1 \<le> (n::int)"
  shows "100 \<le> rs * t' + rk * t' + dark_current * t' + of_int n * read_noise\<^sup>2"
proof -
  have "0 \<le> rs * t'" "0 \<le> rk * t'" "0 \<le> dark_current * t'"
    using assms by (simp_all add: dark_current_def)
  moreover have "100 \<le> of_int n * read_noise\<^sup>2"
    using assms(4) by (simp add: read_noise_def)
  ultimately show ?thesis by linarith
qed

lemma snr_value:
  assumes "rate_sci band N mu = Inr rs" "rate_sky band N = Inr rk"
    and "0 < t" "0 < sub" "0 \<le> rs" "0 \<le> rk"
  shows "snr mu band t sub b N ru =
    Inr (b * (rs * (if ru then of_int \<lceil>t / sub\<rceil> * sub else t)) /
      sqrt (rs * (if ru then of_int \<lceil>t / sub\<rceil> * sub else t)
          + rk * (if ru then of_int \<lceil>t / sub\<rceil> * sub else t)
          + dark_current * (if ru then of_int \<lceil>t / sub\<rceil> * sub else t)
          + of_int \<lceil>t / sub\<rceil> * read_noise\<^sup>2))"
proof -
  define t' where "t' = (if ru then of_int \<lceil>t / sub\<rceil> * sub else t)"
  have n: "1 \<le> \<lceil>t / sub\<rceil>" using assms by (simp add: ceiling_pos_div)
  have t': "0 < t'" unfolding t'_def using assms(3,4) by (rule effective_time_pos)
  have v: "100 \<le> rs * t' + rk * t' + dark_current * t' + of_int \<lceil>t / sub\<rceil> * read_noise\<^sup>2"
    using t' n assms by (intro noise_arg_pos) simp_all
  have "sub \<noteq> 0" using assms by simp
  from snr_unfold[OF assms(1,2) this, of t b ru] v n
  show ?thesis
    by (simp add: Let_def flip: t'_def)
qed


lemma rates_nonneg:
  assumes "band \<in> dom gamma0" "0 \<le> N"
  shows "\<exists>rs rk. rate_sci band N mu = Inr rs \<and> rate_sky band N = Inr rk \<and> 0 \<le> rs \<and> 0 \<le> rk
     \<and> (0 < N \<longrightarrow> 0 < rs \<and> 0 < rk) \<and> (N = 0 \<longrightarrow> rs = 0)"
proof -
  obtain c k where ck: "0 < c" "0 < k"
      "\<And>N mu. rate_sci band N mu = Inr (c * N * 10 powr (- 0.4 * mu))"
      "\<And>N. rate_sky band N = Inr (k * N)"
    using rates_known[OF assms(1)] by blast
  have "0 \<le> c * N * 10 powr (- 0.4 * mu)" "0 \<le> k * N"
    using ck(1,2) assms(2) by simp_all
  moreover have "0 < N \<longrightarrow> 0 < c * N * 10 powr (- 0.4 * mu) \<and> 0 < k * N"
    using ck(1,2) by simp
  moreover have "N = 0 \<longrightarrow> c * N * 10 powr (- 0.4 * mu) = 0" by simp
  ultimately show ?thesis using ck(3,4) by blast
qed

lemma snr_nonpositive_time:
  assumes "band \<in> dom gamma0" "0 \<le> N" "t \<le> 0" "0 < sub"
  shows "snr mu band t sub b N ru = Inl ZeroDivisionError
       \<or> snr mu band t sub b N ru = Inl ValueError"
proof -
  obtain rs rk where r: "rate_sci band N mu = Inr rs" "rate_sky band N = Inr rk" "0 \<le> rs" "0 \<le> rk"
    using rates_nonneg[OF assms(1,2)] by blast
  define n where "n = \<lceil>t / sub\<rceil>"
  define t' where "t' = (if ru then of_int n * sub else t)"
  have "t / sub \<le> 0" using assms(3,4) by (simp add: divide_nonpos_pos)
  then have n: "n \<le> 0" unfolding n_def by (simp add: ceiling_le_iff)
  then have "t' \<le> 0" using assms(3,4) by (simp add: t'_def mult_nonpos_nonneg)
  then have "rs * t' \<le> 0" "rk * t' \<le> 0" "dark_current * t' \<le> 0"
    using r(3,4) by (simp_all add: mult_nonneg_nonpos dark_current_def)
  moreover have "of_int n * read_noise\<^sup>2 \<le> 0"
    using n by (simp add: read_noise_def)
  ultimately have v: "rs * t' + rk * t' + dark_current * t' + of_int n * read_noise\<^sup>2 \<le> 0"
    by linarith
  have "sub \<noteq> 0" using assms(4) by simp
  from snr_unfold[OF r(1,2) this, of t b ru] v
  show ?thesis
    by (auto simp: Let_def simp flip: n_def t'_def)
qed

lemma snr_positive_ratio:
  assumes "band \<in> dom gamma0" "0 \<le> N" "0 < t" "0 < sub"
  shows "\<exists>u. 0 \<le> u \<and> (0 < N \<longrightarrow> 0 < u) \<and> (N = 0 \<longrightarrow> u = 0)
      \<and> (\<forall>b. snr mu band t sub b N ru = Inr (b * u))"
proof -
  obtain rs rk where r: "rate_sci band N mu = Inr rs" "rate_sky band N = Inr rk" "0 \<le> rs" "0 \<le> rk"
      "0 < N \<longrightarrow> 0 < rs" "N = 0 \<longrightarrow> rs = 0"
    using rates_nonneg[OF assms(1,2)] by blast
  define t' where "t' = (if ru then of_int \<lceil>t / sub\<rceil> * sub else t)"
  define v where "v = rs * t' + rk * t' + dark_current * t' + of_int \<lceil>t / sub\<rceil> * read_noise\<^sup>2"
  have t': "0 < t'" unfolding t'_def using assms(3,4) by (rule effective_time_pos)
  have "100 \<le> v" unfolding v_def
    using r(3,4) t' ceiling_pos_div[OF assms(3,4)] by (intro noise_arg_pos) simp_all
  then have sq: "0 < sqrt v" by simp
  have val: "snr mu band t sub b N ru = Inr (b * (rs * t' / sqrt v))" for b
    using snr_value[OF r(1,2) assms(3,4) r(3,4), of b ru] by (simp add: t'_def v_def)
  have "0 \<le> rs * t' / sqrt v" using r(3) t' sq by simp
  moreover have "0 < N \<longrightarrow> 0 < rs * t' / sqrt v" using r(5) t' sq by simp
  moreover have "N = 0 \<longrightarrow> rs * t' / sqrt v = 0" using r(6) by simp
  ultimately show ?thesis using val by blast
qed

subsection \<open>How \<open>snr\<close> varies with its arguments\<close>

lemma ratio_sqrt_strict_mono:
  fixes x y p q :: real
  assumes "0 < x" "x < y" "0 \<le> p" "0 \<le> q" "0 < p + q"
  shows "x / sqrt (p * x + q) < y / sqrt (p * y + q)"
proof -
  have px: "0 < p * x + q" and py: "0 < p * y + q"
    using assms by (smt (verit) mult_nonneg_nonneg mult_pos_pos)+
  have "0 < (y - x) * (p * x * y + q * (x + y))"
  proof -
    have "0 < p * x * y + q * (x + y)"
    proof (cases "0 < p")
      case True
      then have "0 < p * x * y" using assms by simp
      moreover have "0 \<le> q * (x + y)" using assms by simp
      ultimately show ?thesis by linarith
    next
      case False
      then have "0 < q" "p = 0" using assms by simp_all
      then show ?thesis using assms by simp
    qed
    then show ?thesis using assms(2) by simp
  qed
  also have "(y - x) * (p * x * y + q * (x + y)) = y\<^sup>2 * (p * x + q) - x\<^sup>2 * (p * y + q)"
    by (simp add: algebra_simps power2_eq_square)
  finally have "x\<^sup>2 * (p * y + q) < y\<^sup>2 * (p * x + q)" by simp
  then have "(x * sqrt (p * y + q))\<^sup>2 < (y * sqrt (p * x + q))\<^sup>2"
    using px py by (simp add: power_mult_distrib)
  moreover have "0 \<le> y * sqrt (p * x + q)" using assms px by simp
  ultimately have "x * sqrt (p * y + q) < y * sqrt (p * x + q)"
    by (rule power2_less_imp_less)
  then show ?thesis using px py by (simp add: divide_simps mult.commute)
qed

lemma result_less_Inr [simp]: "result_less (Inr a) (Inr b) \<longleftrightarrow> a < b"
  by (simp add: result_less_def)

lemma result_le_Inr [simp]: "result_le (Inr a) (Inr b) \<longleftrightarrow> a \<le> b"
  by (simp add: result_le_def)

lemma rates_pos:
  assumes "band \<in> dom gamma0" "0 < N"
  shows "\<exists>rs rk. rate_sci band N mu = Inr rs \<and> rate_sky band N = Inr rk \<and> 0 < rs \<and> 0 < rk"
  using rates_nonneg[of band N mu] assms by auto

lemma snr_whole_subs:
  assumes "rate_sci band N mu = Inr rs" "rate_sky band N = Inr rk" "0 \<le> rs" "0 \<le> rk"
    and "0 < sub" "1 \<le> n"
  shows "snr mu band (of_int n * sub) sub b N ru =
     Inr (b * (rs * sub) * (of_int n / sqrt (((rs + rk + dark_current) * sub + read_noise\<^sup>2) * of_int n + 0)))"
proof -
  have t: "0 < of_int n * sub" using assms(5,6) by simp
  have c: "\<lceil>of_int n * sub / sub\<rceil> = n" using assms(5) by simp
  have "rs * (of_int n * sub) + rk * (of_int n * sub) + dark_current * (of_int n * sub)
          + of_int n * read_noise\<^sup>2
      = ((rs + rk + dark_current) * sub + read_noise\<^sup>2) * of_int n + 0"
    by (simp add: algebra_simps)
  with snr_value[OF assms(1,2) t assms(5) assms(3,4), of b ru]
  show ?thesis by (simp add: c mult_ac)
qed

lemma snr_round_up_cong:
  assumes "\<lceil>t1 / sub\<rceil> = \<lceil>t2 / sub\<rceil>"
  shows "snr mu band t1 sub b N True = snr mu band t2 sub b N True"
proof (cases "sub = 0")
  case True
  then show ?thesis by (simp add: snr_def sub_exposures_zero)
next
  case False
  then show ?thesis using assms by (simp add: snr_def sub_exposures_eq)
qed

lemma snr_round_up_whole:
  assumes "0 < sub"
  shows "snr mu band t sub b N True = snr mu band (of_int \<lceil>t / sub\<rceil> * sub) sub b N True"
  using assms by (intro snr_round_up_cong) simp

lemma snr_round_up_mono:
  assumes "band \<in> dom gamma0" "0 < N" "0 < sub" "0 < b" "0 < t1" "t1 \<le> t2"
  shows "result_le (snr mu band t1 sub b N True) (snr mu band t2 sub b N True)"
proof -
  obtain rs rk where r: "rate_sci band N mu = Inr rs" "rate_sky band N = Inr rk" "0 < rs" "0 < rk"
    using rates_pos[OF assms(1,2)] by blast
  define n1 where "n1 = \<lceil>t1 / sub\<rceil>"
  define n2 where "n2 = \<lceil>t2 / sub\<rceil>"
  define w where "w = (rs + rk + dark_current) * sub + read_noise\<^sup>2"
  have w: "0 < w" unfolding w_def using r(3,4) assms(3)
    by (simp add: dark_current_def read_noise_def add_pos_pos)
  have n1: "1 \<le> n1" unfolding n1_def using assms by (simp add: ceiling_pos_div)
  have "t1 / sub \<le> t2 / sub" using assms by (simp add: divide_right_mono)
  then have n12: "n1 \<le> n2" unfolding n1_def n2_def by (rule ceiling_mono)
  have v1: "snr mu band t1 sub b N True = Inr (b * (rs * sub) * (of_int n1 / sqrt (w * of_int n1 + 0)))"
    unfolding snr_round_up_whole[OF assms(3), of mu band t1] w_def n1_def[symmetric]
    using r n1 assms(3) by (intro snr_whole_subs) simp_all
  have v2: "snr mu band t2 sub b N True = Inr (b * (rs * sub) * (of_int n2 / sqrt (w * of_int n2 + 0)))"
    unfolding snr_round_up_whole[OF assms(3), of mu band t2] w_def n2_def[symmetric]
    using r n1 n12 assms(3) by (intro snr_whole_subs) simp_all
  have "of_int n1 / sqrt (w * of_int n1 + 0) \<le> of_int n2 / sqrt (w * of_int n2 + 0)"
  proof (cases "n1 = n2")
    case True
    then show ?thesis by simp
  next
    case False
    with n12 have "real_of_int n1 < of_int n2" by simp
    moreover have "0 < real_of_int n1" using n1 by simp
    ultimately have "of_int n1 / sqrt (w * of_int n1 + 0) < of_int n2 / sqrt (w * of_int n2 + 0)"
      using w by (intro ratio_sqrt_strict_mono) simp_all
    then show ?thesis by simp
  qed
  moreover have "0 \<le> b * (rs * sub)" using assms(3,4) r(3) by simp
  ultimately have "b * (rs * sub) * (of_int n1 / sqrt (w * of_int n1 + 0))
      \<le> b * (rs * sub) * (of_int n2 / sqrt (w * of_int n2 + 0))"
    by (rule mult_left_mono)
  then show ?thesis unfolding v1 v2 result_le_Inr .
qed

lemma snr_same_subs_mono:
  assumes "band \<in> dom gamma0" "0 < N" "0 < sub" "0 < b" "0 < t1" "t1 < t2"
    and "\<lceil>t1 / sub\<rceil> = \<lceil>t2 / sub\<rceil>"
  shows "result_less (snr mu band t1 sub b N False) (snr mu band t2 sub b N False)"
proof -
  obtain rs rk where r: "rate_sci band N mu = Inr rs" "rate_sky band N = Inr rk" "0 < rs" "0 < rk"
    using rates_pos[OF assms(1,2)] by blast
  define n where "n = \<lceil>t2 / sub\<rceil>"
  have n: "1 \<le> n" unfolding n_def using assms by (simp add: ceiling_pos_div)
  have t2: "0 < t2" using assms by simp
  have v1: "snr mu band t1 sub b N False
      = Inr (b * rs * (t1 / sqrt ((rs + rk + dark_current) * t1 + of_int n * read_noise\<^sup>2)))"
    using snr_value[OF r(1,2) assms(5,3), of b False] r(3,4) assms(7)
    by (simp add: n_def algebra_simps)
  have v2: "snr mu band t2 sub b N False
      = Inr (b * rs * (t2 / sqrt ((rs + rk + dark_current) * t2 + of_int n * read_noise\<^sup>2)))"
    using snr_value[OF r(1,2) t2 assms(3), of b False] r(3,4)
    by (simp add: n_def algebra_simps)
  have "t1 / sqrt ((rs + rk + dark_current) * t1 + of_int n * read_noise\<^sup>2)
      < t2 / sqrt ((rs + rk + dark_current) * t2 + of_int n * read_noise\<^sup>2)"
    using assms(5,6) r(3,4) n
    by (intro ratio_sqrt_strict_mono) (simp_all add: dark_current_def read_noise_def add_pos_pos)
  moreover have "0 < b * rs" using assms(4) r(3) by simp
  ultimately have "b * rs * (t1 / sqrt ((rs + rk + dark_current) * t1 + of_int n * read_noise\<^sup>2))
      < b * rs * (t2 / sqrt ((rs + rk + dark_current) * t2 + of_int n * read_noise\<^sup>2))"
    by (rule mult_strict_left_mono)
  then show ?thesis unfolding v1 v2 result_less_Inr .
qed

lemma snr_binning_mono:
  assumes "band \<in> dom gamma0" "0 < N" "0 < sub" "0 < t" "b1 < b2"
  shows "result_less (snr mu band t sub b1 N ru) (snr mu band t sub b2 N ru)"
proof -
  have N: "0 \<le> N" using assms(2) by simp
  obtain u where u: "0 < u" "\<And>b. snr mu band t sub b N ru = Inr (b * u)"
    using snr_positive_ratio[OF assms(1) N assms(4,3), of mu ru] assms(2) by blast
  show ?thesis using u(1) assms(5) by (simp add: u(2))
qed

lemma rate_sci_antimono:
  assumes "band \<in> dom gamma0" "0 < N" "mu1 < mu2"
  shows "\<exists>r1 r2. rate_sci band N mu1 = Inr r1 \<and> rate_sci band N mu2 = Inr r2 \<and> 0 < r2 \<and> r2 < r1"
proof -
  obtain c where ck: "0 < c"
      "\<And>N mu. rate_sci band N mu = Inr (c * N * 10 powr (- 0.4 * mu))"
    using rates_known[OF assms(1)] by blast
  have "(10::real) powr (- 0.4 * mu2) < 10 powr (- 0.4 * mu1)"
    using assms(3) by (intro powr_less_mono) simp_all
  then have "c * N * 10 powr (- 0.4 * mu2) < c * N * 10 powr (- 0.4 * mu1)"
    using ck(1) assms(2) by simp
  moreover have "0 < c * N * 10 powr (- 0.4 * mu2)" using ck(1) assms(2) by simp
  ultimately show ?thesis using ck(2) by blast
qed

lemma snr_magnitude_antimono:
  assumes "band \<in> dom gamma0" "0 < N" "0 < sub" "0 < t" "0 < b" "mu1 < mu2"
  shows "result_less (snr mu2 band t sub b N ru) (snr mu1 band t sub b N ru)"
proof -
  obtain r1 r2 where r: "rate_sci band N mu1 = Inr r1" "rate_sci band N mu2 = Inr r2"
      "0 < r2" "r2 < r1"
    using rate_sci_antimono[OF assms(1,2,6)] by blast
  obtain rk where k: "rate_sky band N = Inr rk" "0 < rk"
    using rates_pos[OF assms(1,2)] by blast
  define t' where "t' = (if ru then of_int \<lceil>t / sub\<rceil> * sub else t)"
  define q where "q = rk * t' + dark_current * t' + of_int \<lceil>t / sub\<rceil> * read_noise\<^sup>2"
  have t': "0 < t'" unfolding t'_def using assms(4,3) by (rule effective_time_pos)
  have "100 \<le> 0 * t' + rk * t' + dark_current * t' + of_int \<lceil>t / sub\<rceil> * read_noise\<^sup>2"
    using k(2) t' ceiling_pos_div[OF assms(4,3)] by (intro noise_arg_pos) simp_all
  then have q: "0 < q" by (simp add: q_def)
  have v1: "snr mu1 band t sub b N ru = Inr (b * t' * (r1 / sqrt (t' * r1 + q)))"
    using snr_value[OF r(1) k(1) assms(4,3), of b ru] r(3,4) k(2)
    by (simp add: t'_def q_def algebra_simps)
  have v2: "snr mu2 band t sub b N ru = Inr (b * t' * (r2 / sqrt (t' * r2 + q)))"
    using snr_value[OF r(2) k(1) assms(4,3), of b ru] r(3,4) k(2)
    by (simp add: t'_def q_def algebra_simps)
  have "r2 / sqrt (t' * r2 + q) < r1 / sqrt (t' * r1 + q)"
    using r(3,4) t' q by (intro ratio_sqrt_strict_mono) simp_all
  moreover have "0 < b * t'" using assms(5) t' by simp
  ultimately have "b * t' * (r2 / sqrt (t' * r2 + q)) < b * t' * (r1 / sqrt (t' * r1 + q))"
    by (rule mult_strict_left_mono)
  then show ?thesis unfolding v1 v2 result_less_Inr .
qed


subsection \<open>The rates of band \<open>g\<close> at fixed magnitudes\<close>

lemma ratio_sqrt_less:
  fixes a b u v :: real
  assumes "0 < u" "0 < v" "0 < b" "a\<^sup>2 * v < b\<^sup>2 * u"
  shows "a / sqrt u < b / sqrt v"
proof -
  have "(a * sqrt v)\<^sup>2 < (b * sqrt u)\<^sup>2"
    using assms by (simp add: power_mult_distrib)
  moreover have "0 \<le> b * sqrt u" using assms by simp
  ultimately have "a * sqrt v < b * sqrt u" by (rule power2_less_imp_less)
  then show ?thesis using assms by (simp add: divide_simps mult.commute)
qed

lemma rates_g_25:
  "rate_sci ''g'' 1 25 = Inr (6086 / 100000)"
  "\<exists>rk. rate_sky ''g'' 1 = Inr rk \<and> 0 < rk \<and> rk < 7"
proof -
  have g: "gamma0 ''g'' = Some 1790000000" by (simp add: gamma0_def)
  have e: "efficiency ''g'' = Some (34 / 100)" by (simp add: efficiency_def)
  have m: "sky_mu ''g'' = Some 22" by (simp add: sky_mu_def)
  have "(10::real) powr (- 0.4 * 25) = 10 powr (- 10)" by simp
  also have "\<dots> = 1 / 10000000000" by (simp add: powr_neg_numeral)
  finally have p: "(10::real) powr (- 0.4 * 25) = 1 / 10000000000" .
  show "rate_sci ''g'' 1 25 = Inr (6086 / 100000)"
    unfolding rate_sci_known[OF g e] p by simp
  have "(10::real) powr (- 0.4 * 22) \<le> 10 powr (- 8)"
    by (intro powr_mono) simp_all
  also have "\<dots> = 1 / 100000000" by (simp add: powr_neg_numeral)
  finally have "(10::real) powr (- 0.4 * 22) \<le> 1 / 100000000" .
  then have "1790000000 * 1 * (34 / 100) * 10 powr (- 0.4 * 22) < (7::real)"
    by simp
  moreover have "0 < 1790000000 * 1 * (34 / 100) * (10::real) powr (- 0.4 * 22)"
    by simp
  ultimately show "\<exists>rk. rate_sky ''g'' 1 = Inr rk \<and> 0 < rk \<and> rk < 7"
    unfolding rate_sky_known[OF g e m] by blast
qed

subsection \<open>The quadratic of \<open>limit\<close>\<close>

lemma quadratic_root:
  fixes a b c x :: real
  assumes "0 < a" "a * x\<^sup>2 + b * x + c = 0" "0 \<le> 2 * a * x + b"
  shows "(- b + sqrt (b\<^sup>2 - 4 * a * c)) / (2 * a) = x" and "0 \<le> b\<^sup>2 - 4 * a * c"
proof -
  have "b\<^sup>2 - 4 * a * c = (2 * a * x + b)\<^sup>2 - 4 * a * (a * x\<^sup>2 + b * x + c)"
    by (simp add: algebra_simps power2_eq_square)
  also have "\<dots> = (2 * a * x + b)\<^sup>2" unfolding assms(2) by simp
  finally have d: "b\<^sup>2 - 4 * a * c = (2 * a * x + b)\<^sup>2" .
  then have "sqrt (b\<^sup>2 - 4 * a * c) = 2 * a * x + b"
    using assms(3) by simp
  then show "(- b + sqrt (b\<^sup>2 - 4 * a * c)) / (2 * a) = x" using assms(1) by simp
  show "0 \<le> b\<^sup>2 - 4 * a * c" unfolding d by simp
qed

lemma limit_quadratic_value:
  assumes "rate_sky band N = Inr rk" "b \<noteq> 0" "0 < t" "0 < sub"
  shows "limit_quadratic band t T sub b N ru =
    Inr ((if ru then of_int \<lceil>t / sub\<rceil> * sub else t)\<^sup>2,
         - ((T / b)\<^sup>2) * (if ru then of_int \<lceil>t / sub\<rceil> * sub else t),
         - ((T / b)\<^sup>2) * (rk * (if ru then of_int \<lceil>t / sub\<rceil> * sub else t)
            + dark_current * (if ru then of_int \<lceil>t / sub\<rceil> * sub else t)
            + of_int \<lceil>t / sub\<rceil> * read_noise\<^sup>2))"
proof -
  have n: "1 \<le> \<lceil>t / sub\<rceil>" using assms by (simp add: ceiling_pos_div)
  have "sub \<noteq> 0" using assms by simp
  then show ?thesis
    using assms(1,2) n
    by (simp add: limit_quadratic_def and_then_def py_div_def py_sqrt_def sub_exposures_eq
        Let_def power_mult_distrib)
qed

lemma limit_from_quadratic:
  assumes "limit_quadratic band t T sub b N ru = Inr (a, bq, c)"
    and "gamma0 band = Some g" "efficiency band = Some e"
    and "0 \<le> bq\<^sup>2 - 4 * a * c" "a \<noteq> 0" "g * N * e \<noteq> 0"
    and "(- bq + sqrt (bq\<^sup>2 - 4 * a * c)) / (2 * a) = x"
  shows "limit band t T sub b N ru =
    (if x / (g * N * e) \<le> 0 then Inl ValueError else Inr (- 2.5 * log 10 (x / (g * N * e))))"
  using assms(2-6) unfolding limit_def assms(1) assms(7)[symmetric]
  by (simp add: and_then_def py_sqrt_def py_div_def py_log10_def lookup_def discriminant_def)


lemma round_trip_core:
  assumes "band \<in> dom gamma0" "0 < t" "0 < sub" "0 < N" "b \<noteq> 0"
  shows "\<exists>s. snr mu band t sub b N ru = Inr s \<and> limit band t s sub b N ru = Inr mu"
proof -
  obtain g e m where tab: "gamma0 band = Some g" "efficiency band = Some e" "sky_mu band = Some m"
    using table_values[OF assms(1)] by blast
  have ge: "0 < g" "0 < e" using tab table_positive by blast+
  define P where "P = 10 powr (- 0.4 * mu)"
  define rs where "rs = g * N * e * P"
  define rk where "rk = g * N * e * 10 powr (- 0.4 * m)"
  define t' where "t' = (if ru then of_int \<lceil>t / sub\<rceil> * sub else t)"
  define K where "K = rk * t' + dark_current * t' + of_int \<lceil>t / sub\<rceil> * read_noise\<^sup>2"
  define s where "s = rs * t'"
  define v where "v = s + K"
  define S where "S = b * s / sqrt v"
  have P: "0 < P" by (simp add: P_def)
  have gne: "0 < g * N * e" using ge assms(4) by simp
  have rs: "0 < rs" unfolding rs_def using gne P by simp
  have rk: "0 < rk" unfolding rk_def using gne by simp
  have t': "0 < t'" unfolding t'_def using assms(2,3) by (rule effective_time_pos)
  have "100 \<le> 0 * t' + rk * t' + dark_current * t' + of_int \<lceil>t / sub\<rceil> * read_noise\<^sup>2"
    using rk t' ceiling_pos_div[OF assms(2,3)] by (intro noise_arg_pos) simp_all
  then have K: "0 < K" by (simp add: K_def)
  have s: "0 < s" unfolding s_def using rs t' by simp
  have v: "0 < v" unfolding v_def using s K by simp
  have r1: "rate_sci band N mu = Inr rs"
    unfolding rs_def P_def by (rule rate_sci_known[OF tab(1,2)])
  have r2: "rate_sky band N = Inr rk"
    unfolding rk_def by (rule rate_sky_known[OF tab])
  have val: "snr mu band t sub b N ru = Inr S"
    using snr_value[OF r1 r2 assms(2,3), of b ru] rs rk
    by (simp add: S_def v_def K_def s_def t'_def algebra_simps)
  have Sb: "(S / b)\<^sup>2 = s\<^sup>2 / v"
    using assms(5) v by (simp add: S_def power_divide)
  have quad: "limit_quadratic band t S sub b N ru = Inr (t'\<^sup>2, - (s\<^sup>2 / v) * t', - (s\<^sup>2 / v) * K)"
    using limit_quadratic_value[OF r2 assms(5,2,3), of S ru]
    by (simp add: Sb K_def t'_def)
  have a: "0 < t'\<^sup>2" using t' by simp
  define q where "q = s\<^sup>2 / v"
  have qv: "q * v = s\<^sup>2" using v by (simp add: q_def)
  have "t'\<^sup>2 * rs\<^sup>2 + (- q * t') * rs + (- q * K) = s\<^sup>2 - q * (s + K)"
    by (simp add: s_def algebra_simps power2_eq_square)
  also have "\<dots> = 0" using qv by (simp add: v_def)
  finally have eq: "t'\<^sup>2 * rs\<^sup>2 + (- (s\<^sup>2 / v) * t') * rs + (- (s\<^sup>2 / v) * K) = 0"
    unfolding q_def .
  have "s / v \<le> 1" using v K by (simp add: v_def)
  then have "s * (s / v) \<le> s * 1" using s by (intro mult_left_mono) simp_all
  then have sv: "q \<le> s" by (simp add: q_def power2_eq_square)
  have "2 * t'\<^sup>2 * rs + (- q * t') = t' * (2 * s - q)"
    by (simp add: s_def algebra_simps power2_eq_square)
  also have "0 \<le> t' * (2 * s - q)" using t' sv s by simp
  finally have nn: "0 \<le> 2 * t'\<^sup>2 * rs + (- (s\<^sup>2 / v) * t')"
    unfolding q_def .
  note root = quadratic_root[OF a eq nn]
  have gne0: "g * N * e \<noteq> 0" using ge assms(4) by simp
  then have ratio: "rs / (g * N * e) = P" unfolding rs_def by (rule nonzero_mult_div_cancel_left)
  have lg: "log 10 P = - 0.4 * mu" unfolding P_def by simp
  have a0: "t'\<^sup>2 \<noteq> 0" using t' by simp
  have "limit band t S sub b N ru = Inr (- 2.5 * log 10 P)"
    unfolding limit_from_quadratic[OF quad tab(1,2) root(2) a0 gne0 root(1)] ratio
    using P by simp
  also have "- 2.5 * log 10 P = mu" unfolding lg by simp
  finally have "limit band t S sub b N ru = Inr mu" .
  with val show ?thesis by blast
qed


lemma sub_exposures_exact:
  assumes "sub \<noteq> 0" "t = of_int \<lceil>t / sub\<rceil> * sub"
  shows "sub_exposures t sub ru = sub_exposures t sub ru'"
  using assms by (auto simp: sub_exposures_eq)

lemma exact_multiple_flag:
  assumes "sub \<noteq> 0" "t = of_int \<lceil>t / sub\<rceil> * sub"
  shows "snr mu band t sub b N ru = snr mu band t sub b N ru'"
    and "limit band t T sub b N ru = limit band t T sub b N ru'"
  unfolding snr_def limit_def limit_quadratic_def sub_exposures_exact[OF assms, of ru ru']
  by (rule refl)+

lemma limit_quadratic_signs:
  assumes "band \<in> dom gamma0" "0 < t" "0 < sub" "0 < N" "b \<noteq> 0"
    and "limit_quadratic band t T sub b N ru = Inr (a, bq, c)"
  shows "0 \<le> a" "c \<le> 0"
proof -
  obtain rk where k: "rate_sky band N = Inr rk" "0 < rk"
    using rates_pos[OF assms(1,4)] by blast
  define t' where "t' = (if ru then of_int \<lceil>t / sub\<rceil> * sub else t)"
  define K where "K = rk * t' + dark_current * t' + of_int \<lceil>t / sub\<rceil> * read_noise\<^sup>2"
  have t': "0 < t'" unfolding t'_def using assms(2,3) by (rule effective_time_pos)
  have "100 \<le> 0 * t' + rk * t' + dark_current * t' + of_int \<lceil>t / sub\<rceil> * read_noise\<^sup>2"
    using k(2) t' ceiling_pos_div[OF assms(2,3)] by (intro noise_arg_pos) simp_all
  then have K: "0 < K" by (simp add: K_def)
  have "limit_quadratic band t T sub b N ru = Inr (t'\<^sup>2, - ((T / b)\<^sup>2) * t', - ((T / b)\<^sup>2) * K)"
    using limit_quadratic_value[OF k(1) assms(5,2,3), of T ru]
    by (simp add: K_def t'_def)
  with assms(6) have a: "a = t'\<^sup>2" and c: "c = - ((T / b)\<^sup>2) * K" by simp_all
  show "0 \<le> a" unfolding a by simp
  have "0 \<le> (T / b)\<^sup>2 * K" using K by simp
  then show "c \<le> 0" unfolding c by simp
qed

lemma discriminant_signs:
  assumes "0 \<le> a" "c \<le> 0"
  shows "0 \<le> discriminant (a, b, c)"
proof -
  have "a * c \<le> 0" using assms by (simp add: mult_nonneg_nonpos)
  then have "4 * a * c \<le> 0" by simp
  moreover have "0 \<le> b\<^sup>2" by simp
  ultimately have "4 * a * c \<le> b\<^sup>2" by (rule order_trans)
  then show ?thesis by (simp add: discriminant_def)
qed

subsection \<open>The estimate and the loop of \<open>etc\<close>\<close>

lemma etc_start_value:
  assumes "rate_sci band N mu = Inr rs" "rate_sky band N = Inr rk" "rs \<noteq> 0" "b \<noteq> 0" "sub \<noteq> 0"
  shows "etc_start mu band T sub b N =
    Inr (T / b, \<lceil>(T / b)\<^sup>2 * (rs + rk + dark_current + read_noise\<^sup>2 / sub) / rs\<^sup>2 / sub\<rceil>)"
  using assms by (simp add: etc_start_def and_then_def py_div_def)

lemma snr_whole_subs_sqrt:
  assumes "rate_sci band N mu = Inr rs" "rate_sky band N = Inr rk" "0 \<le> rs" "0 \<le> rk"
    and "0 < sub" "1 \<le> n"
  shows "snr mu band (of_int n * sub) sub b N ru =
     Inr (b * (rs * sub / sqrt ((rs + rk + dark_current) * sub + read_noise\<^sup>2) * sqrt (of_int n)))"
proof -
  define w where "w = (rs + rk + dark_current) * sub + read_noise\<^sup>2"
  have w: "0 < w" unfolding w_def using assms(3,4,5)
    by (simp add: dark_current_def read_noise_def add_nonneg_pos)
  have n: "0 < real_of_int n" using assms(6) by simp
  have "real_of_int n / sqrt (w * of_int n + 0) = sqrt (of_int n) / sqrt w"
    using w n by (simp add: real_sqrt_mult real_div_sqrt divide_simps)
  then show ?thesis
    unfolding snr_whole_subs[OF assms, of b ru] w_def by simp
qed


lemma square_le_iff_le_sqrt:
  fixes a y :: real
  assumes "0 \<le> a"
  shows "a\<^sup>2 \<le> y \<longleftrightarrow> a \<le> sqrt y"
proof -
  have "a\<^sup>2 \<le> y \<longleftrightarrow> sqrt (a\<^sup>2) \<le> sqrt y" by (simp only: real_sqrt_le_iff)
  also have "sqrt (a\<^sup>2) = a" using assms by simp
  finally show ?thesis .
qed

lemma etc_estimate_in_subs:
  fixes rs rk sub u :: real
  assumes "0 < rs" "0 \<le> rk" "0 < sub"
  shows "u\<^sup>2 * (rs + rk + dark_current + read_noise\<^sup>2 / sub) / rs\<^sup>2 / sub
       = (u / (rs * sub / sqrt ((rs + rk + dark_current) * sub + read_noise\<^sup>2)))\<^sup>2"
proof -
  define w where "w = (rs + rk + dark_current) * sub + read_noise\<^sup>2"
  have w: "0 < w" unfolding w_def using assms
    by (simp add: dark_current_def read_noise_def add_nonneg_pos)
  have "rs + rk + dark_current + read_noise\<^sup>2 / sub = w / sub"
    using assms(3) by (simp add: w_def divide_simps)
  then have "u\<^sup>2 * (rs + rk + dark_current + read_noise\<^sup>2 / sub) / rs\<^sup>2 / sub
      = u\<^sup>2 * w / (rs\<^sup>2 * sub\<^sup>2)"
    by (simp add: power2_eq_square)
  also have "\<dots> = (u / (rs * sub / sqrt w))\<^sup>2"
    using w by (simp add: power_divide power_mult_distrib)
  finally show ?thesis unfolding w_def .
qed

lemma etc_analysis:
  assumes "rate_sci band N mu = Inr rs" "rate_sky band N = Inr rk" "0 < rs" "0 \<le> rk"
    and "0 < sub" "0 < T" "1 \<le> b"
  defines "n0 \<equiv> \<lceil>(T / b)\<^sup>2 * (rs + rk + dark_current + read_noise\<^sup>2 / sub) / rs\<^sup>2 / sub\<rceil>"
  shows "1 \<le> n0"
    and "etc mu band T sub b N = Some (Inr (of_int n0 * sub, n0))"
    and "\<exists>s. snr mu band (of_int n0 * sub) sub b N False = Inr s \<and> T \<le> s"
    and "\<And>k. 1 \<le> k \<Longrightarrow> k < n0 \<Longrightarrow> result_less (snr mu band (of_int k * sub) sub b N False) (Inr T)"
proof -
  define C where "C = rs * sub / sqrt ((rs + rk + dark_current) * sub + read_noise\<^sup>2)"
  define u where "u = T / b"
  have b: "0 < b" using assms(7) by simp
  have u: "0 < u" unfolding u_def using assms(6) b by simp
  have "0 < (rs + rk + dark_current) * sub + read_noise\<^sup>2"
    using assms(3,4,5) by (simp add: dark_current_def read_noise_def add_nonneg_pos)
  then have C: "0 < C" unfolding C_def using assms(3,5) by simp
  have n0: "n0 = \<lceil>(u / C)\<^sup>2\<rceil>"
    unfolding n0_def u_def C_def etc_estimate_in_subs[OF assms(3,4,5)] ..
  have "0 < (u / C)\<^sup>2" using u C by simp
  then show one: "1 \<le> n0" unfolding n0
    by (simp add: less_ceiling_iff flip: zless_iff_Suc_zadd int_one_le_iff_zero_less)
  have rs: "0 \<le> rs" using assms(3) by simp
  have val: "snr mu band (of_int k * sub) sub b N False = Inr (b * (C * sqrt (of_int k)))"
    if "1 \<le> k" for k
    unfolding C_def by (rule snr_whole_subs_sqrt[OF assms(1,2) rs assms(4,5) that])
  have "(u / C)\<^sup>2 \<le> of_int n0" unfolding n0 by (rule le_of_int_ceiling)
  then have "u / C \<le> sqrt (of_int n0)"
    using u C by (simp add: square_le_iff_le_sqrt)
  then have "u \<le> C * sqrt (of_int n0)" using C by (simp add: divide_le_eq mult.commute)
  then have "b * u \<le> b * (C * sqrt (of_int n0))" using b by simp
  moreover have bu: "b * u = T" using b by (simp add: u_def)
  ultimately have ge: "T \<le> b * (C * sqrt (of_int n0))" by simp
  with val[OF one] show "\<exists>s. snr mu band (of_int n0 * sub) sub b N False = Inr s \<and> T \<le> s"
    by blast
  have "u \<le> T" using assms(6,7) by (simp add: u_def divide_le_eq)
  with ge have nl: "\<not> b * (C * sqrt (of_int n0)) < u" by simp
  have start: "etc_start mu band T sub b N = Inr (u, n0)"
    unfolding u_def n0_def using assms(3,5) b
    by (intro etc_start_value[OF assms(1,2)]) simp_all
  have "etc_loop mu band u sub b N n0 = Some (Inr n0)"
    by (subst etc_loop.simps) (simp add: val[OF one] nl)
  then show "etc mu band T sub b N = Some (Inr (of_int n0 * sub, n0))"
    by (simp add: etc_def start)
  show "result_less (snr mu band (of_int k * sub) sub b N False) (Inr T)"
    if k: "1 \<le> k" "k < n0" for k
  proof -
    have "of_int k < (u / C)\<^sup>2" using k(2) unfolding n0 by (simp add: less_ceiling_iff)
    then have "\<not> (u / C)\<^sup>2 \<le> of_int k" by simp
    then have "sqrt (of_int k) < u / C"
      using u C by (simp add: square_le_iff_le_sqrt)
    then have "C * sqrt (of_int k) < u" using C by (simp add: less_divide_eq mult.commute)
    then have "b * (C * sqrt (of_int k)) < b * u" using b by simp
    then show ?thesis unfolding val[OF k(1)] bu by simp
  qed
qed



text \<open>
  Line 73 compares what \<open>snr\<close> returns, which includes the factor \<open>binning\<close>, with the
  target divided by the binning. With a binning of at least two, the loop started one
  count below the ceiling of the exact estimate leaves at once with that count, although
  \<open>snr\<close> there is strictly below the target of the caller.
\<close>

lemma etc_loop_keeps_count_below_target:
  assumes "rate_sci band N mu = Inr rs" "rate_sky band N = Inr rk" "0 < rs" "0 \<le> rk"
    and "0 < sub" "0 < T" "2 \<le> b"
    and "2 \<le> \<lceil>(T / b)\<^sup>2 * (rs + rk + dark_current + read_noise\<^sup>2 / sub) / rs\<^sup>2 / sub\<rceil>"
  defines "n \<equiv> \<lceil>(T / b)\<^sup>2 * (rs + rk + dark_current + read_noise\<^sup>2 / sub) / rs\<^sup>2 / sub\<rceil> - 1"
  shows "etc_loop mu band (T / b) sub b N n = Some (Inr n)"
    and "result_less (snr mu band (of_int n * sub) sub b N False) (Inr T)"
proof -
  define C where "C = rs * sub / sqrt ((rs + rk + dark_current) * sub + read_noise\<^sup>2)"
  define u where "u = T / b"
  have b: "0 < b" "1 \<le> b" using assms(7) by simp_all
  have u: "0 < u" unfolding u_def using assms(6) b by simp
  have "0 < (rs + rk + dark_current) * sub + read_noise\<^sup>2"
    using assms(3,4,5) by (simp add: dark_current_def read_noise_def add_nonneg_pos)
  then have C: "0 < C" unfolding C_def using assms(3,5) by simp
  have n1: "1 \<le> n" unfolding n_def using assms(8) by simp
  have n: "n + 1 = \<lceil>(u / C)\<^sup>2\<rceil>"
    unfolding n_def u_def C_def etc_estimate_in_subs[OF assms(3,4,5)] by simp
  have rs: "0 \<le> rs" using assms(3) by simp
  have val: "snr mu band (of_int n * sub) sub b N False = Inr (b * (C * sqrt (of_int n)))"
    unfolding C_def by (rule snr_whole_subs_sqrt[OF assms(1,2) rs assms(4,5) n1])
  have "(u / C)\<^sup>2 \<le> of_int (n + 1)" unfolding n by (rule le_of_int_ceiling)
  also have "real_of_int (n + 1) \<le> 4 * of_int n" using n1 by simp
  also have "\<dots> \<le> b\<^sup>2 * of_int n"
  proof -
    have "2 * 2 \<le> b * b" using assms(7) by (intro mult_mono) simp_all
    then have "4 \<le> b\<^sup>2" by (simp add: power2_eq_square)
    then show ?thesis using n1 by (intro mult_right_mono) simp_all
  qed
  finally have "(u / C)\<^sup>2 \<le> (b * sqrt (of_int n))\<^sup>2"
    using n1 by (simp add: power_mult_distrib)
  moreover have "0 \<le> b * sqrt (of_int n)" using b(1) n1 by simp
  ultimately have "u / C \<le> b * sqrt (of_int n)" by (rule power2_le_imp_le)
  then have "u \<le> b * (C * sqrt (of_int n))"
    using C by (simp add: divide_le_eq mult_ac)
  then have nl: "\<not> b * (C * sqrt (of_int n)) < u" by simp
  show "etc_loop mu band (T / b) sub b N n = Some (Inr n)"
    unfolding u_def[symmetric] by (subst etc_loop.simps) (simp add: val nl)
  have "n < \<lceil>(T / b)\<^sup>2 * (rs + rk + dark_current + read_noise\<^sup>2 / sub) / rs\<^sup>2 / sub\<rceil>"
    unfolding n_def by simp
  then show "result_less (snr mu band (of_int n * sub) sub b N False) (Inr T)"
    by (rule etc_analysis(4)[OF assms(1-6) b(2) n1])
qed



section \<open>Claims about \<open>snr\<close>\<close>

text \<open>
  Claim C1. For a band of the tables, any magnitude, positive total and sub-exposure
  times and a frame count \<open>N\<close> that is not negative, \<open>snr\<close> raises nothing and returns
  \<open>binning * signal / noise\<close>: the two rates are
  \<open>gamma0[band] * N * efficiency[band] * 10 powr (-0.4 * magnitude)\<close>, the number of
  sub-exposures is the ceiling of total over sub-exposure time, the time used is
  \<open>number_subs * sub_exp_time\<close> when \<open>round_up\<close> is set and the request is not that
  multiple already, the signal is rate times time, and the noise is the square root of
  signal, sky counts, dark counts and \<open>number_subs * read_noise\<^sup>2\<close>.
\<close>

theorem snr_formula:
  assumes "gamma0 band = Some g" "efficiency band = Some e" "sky_mu band = Some m"
    and "0 < total_exp_time" "0 < sub_exp_time" "0 \<le> N"
  shows "snr sci_mu band total_exp_time sub_exp_time binning N round_up =
    Inr (let rate_sci = g * N * e * 10 powr (- 0.4 * sci_mu);
             rate_sky = g * N * e * 10 powr (- 0.4 * m);
             number_subs = \<lceil>total_exp_time / sub_exp_time\<rceil>;
             t = (if round_up \<and> total_exp_time \<noteq> of_int number_subs * sub_exp_time
                  then of_int number_subs * sub_exp_time else total_exp_time);
             signal = rate_sci * t;
             noise = sqrt (signal + rate_sky * t + dark_current * t
                           + of_int number_subs * read_noise\<^sup>2)
         in binning * signal / noise)"
proof -
  have pos: "0 < g" "0 < e" using assms(1,2) table_positive by blast+
  have rs: "0 \<le> g * N * e * 10 powr (- 0.4 * sci_mu)"
    and rk: "0 \<le> g * N * e * 10 powr (- 0.4 * m)"
    using pos assms(6) by simp_all
  have t: "(if round_up \<and> total_exp_time \<noteq> of_int \<lceil>total_exp_time / sub_exp_time\<rceil> * sub_exp_time
            then of_int \<lceil>total_exp_time / sub_exp_time\<rceil> * sub_exp_time else total_exp_time)
         = (if round_up then of_int \<lceil>total_exp_time / sub_exp_time\<rceil> * sub_exp_time
            else total_exp_time)"
    by simp
  show ?thesis
    unfolding Let_def t
    by (rule snr_value[OF rate_sci_known[OF assms(1,2)] rate_sky_known[OF assms(1-3)]
          assms(4,5) rs rk])
qed

theorem snr_formula_witness:
  "snr 25 ''g'' 100 30 2 1 True =
    Inr (let rate_sci = 1790000000 * 1 * (34 / 100) * 10 powr (- 0.4 * 25);
             rate_sky = 1790000000 * 1 * (34 / 100) * 10 powr (- 0.4 * 22);
             number_subs = \<lceil>100 / 30 :: real\<rceil>;
             t = (if True \<and> (100::real) \<noteq> of_int number_subs * 30
                  then of_int number_subs * 30 else 100);
             signal = rate_sci * t;
             noise = sqrt (signal + rate_sky * t + dark_current * t
                           + of_int number_subs * read_noise\<^sup>2)
         in 2 * signal / noise)"
proof -
  have g: "gamma0 ''g'' = Some 1790000000" by (simp add: gamma0_def)
  have e: "efficiency ''g'' = Some (34 / 100)" by (simp add: efficiency_def)
  have m: "sky_mu ''g'' = Some 22" by (simp add: sky_mu_def)
  have t: "(0::real) < 100" "(0::real) < 30" "(0::real) \<le> 1" by simp_all
  show ?thesis by (rule snr_formula[OF g e m t])
qed

text \<open>
  Claim C9. A request of 100 seconds in sub-exposures of 30 seconds with \<open>round_up\<close> set
  is served with four sub-exposures and 120 seconds: \<open>snr\<close> returns what it returns for
  120 seconds, and for a band of the tables that is the formula at 120 seconds with the
  read noise of four sub-exposures.
\<close>

theorem snr_rounds_100_to_120:
  assumes "gamma0 band = Some g" "efficiency band = Some e" "sky_mu band = Some m" "0 \<le> N"
  shows "sub_exposures 100 30 True = Inr (4, 120)
    \<and> snr sci_mu band 100 30 binning N True = snr sci_mu band 120 30 binning N round_up
    \<and> snr sci_mu band 100 30 binning N True =
        Inr (let rate_sci = g * N * e * 10 powr (- 0.4 * sci_mu);
                 rate_sky = g * N * e * 10 powr (- 0.4 * m)
             in binning * (rate_sci * 120) /
                sqrt (rate_sci * 120 + rate_sky * 120 + dark_current * 120 + 4 * read_noise\<^sup>2))"
proof -
  have c: "\<lceil>100 / 30 :: real\<rceil> = 4" "\<lceil>120 / 30 :: real\<rceil> = 4" by simp_all
  have s1: "sub_exposures 100 30 True = Inr (4, 120)"
    by (simp add: sub_exposures_eq c)
  have s2: "sub_exposures 120 30 round_up = Inr (4, 120)"
    by (simp add: sub_exposures_eq c)
  have eq: "snr sci_mu band 100 30 binning N True = snr sci_mu band 120 30 binning N round_up"
    by (simp add: snr_def s1 s2)
  have pos: "0 < g" "0 < e" using assms(1,2) table_positive by blast+
  have rs: "0 \<le> g * N * e * 10 powr (- 0.4 * sci_mu)"
    and rk: "0 \<le> g * N * e * 10 powr (- 0.4 * m)"
    using pos assms(4) by simp_all
  have "snr sci_mu band 100 30 binning N True =
        Inr (let rate_sci = g * N * e * 10 powr (- 0.4 * sci_mu);
                 rate_sky = g * N * e * 10 powr (- 0.4 * m)
             in binning * (rate_sci * 120) /
                sqrt (rate_sci * 120 + rate_sky * 120 + dark_current * 120 + 4 * read_noise\<^sup>2))"
    using snr_value[OF rate_sci_known[OF assms(1,2)] rate_sky_known[OF assms(1-3)] _ _ rs rk,
        of 100 30 binning True]
    by (simp add: c Let_def)
  with s1 eq show ?thesis by blast
qed

theorem snr_rounds_100_to_120_witness:
  "sub_exposures 100 30 True = Inr (4, 120)
    \<and> snr 25 ''r'' 100 30 1 1 True = snr 25 ''r'' 120 30 1 1 False
    \<and> snr 25 ''r'' 100 30 1 1 True =
        Inr (let rate_sci = 1160000000 * 1 * (35 / 100) * 10 powr (- 0.4 * 25);
                 rate_sky = 1160000000 * 1 * (35 / 100) * 10 powr (- 0.4 * 21)
             in 1 * (rate_sci * 120) /
                sqrt (rate_sci * 120 + rate_sky * 120 + dark_current * 120 + 4 * read_noise\<^sup>2))"
proof -
  have g: "gamma0 ''r'' = Some 1160000000" by (simp add: gamma0_def)
  have e: "efficiency ''r'' = Some (35 / 100)" by (simp add: efficiency_def)
  have m: "sky_mu ''r'' = Some 21" by (simp add: sky_mu_def)
  have n: "(0::real) \<le> 1" by simp
  show ?thesis by (rule snr_rounds_100_to_120[OF g e m n])
qed

text \<open>
  Claim C10. With \<open>round_up\<close> set, \<open>snr\<close> sees the requested total exposure time only
  through the ceiling of total over sub-exposure time: two requests with the same ceiling
  give the same result, a value or an exception.
\<close>

theorem snr_depends_on_ceiling:
  assumes "\<lceil>t1 / sub_exp_time\<rceil> = \<lceil>t2 / sub_exp_time\<rceil>"
  shows "snr sci_mu band t1 sub_exp_time binning N True
       = snr sci_mu band t2 sub_exp_time binning N True"
proof (cases "sub_exp_time = 0")
  case True
  then show ?thesis by (simp add: snr_def sub_exposures_zero)
next
  case False
  then show ?thesis using assms by (simp add: snr_def sub_exposures_eq)
qed

theorem snr_depends_on_ceiling_witness:
  "\<lceil>100 / 30 :: real\<rceil> = \<lceil>110 / 30 :: real\<rceil>
    \<and> snr 20 ''r'' 100 30 1 1 True = snr 20 ''r'' 110 30 1 1 True"
proof -
  have c: "\<lceil>100 / 30 :: real\<rceil> = \<lceil>110 / 30 :: real\<rceil>" by simp
  show ?thesis using c snr_depends_on_ceiling[OF c] by simp
qed

section \<open>Claims about unknown bands\<close>

text \<open>
  The first statement of \<open>etc\<close> and of \<open>limit\<close> divides the target by the binning, before
  any table is read: with a binning of zero an unknown band is not reached.
\<close>

lemma unknown_band_zero_binning:
  assumes "band \<notin> dom gamma0"
  shows "etc sci_mu band snr_target sub_exp_time 0 N = Some (Inl ZeroDivisionError)"
    and "limit band total_exp_time snr_target sub_exp_time 0 N round_up = Inl ZeroDivisionError"
  by (simp_all add: etc_def etc_start_def limit_def limit_quadratic_def py_div_def and_then_def)

text \<open>
  Claim C8. For a band that is not in the tables (with the tables of the module, any band
  but \<open>g\<close> and \<open>r\<close>) and a binning other than zero, each of \<open>snr\<close>, \<open>etc\<close> and \<open>limit\<close>
  raises \<open>KeyError\<close> and returns no number.
\<close>

theorem unknown_band_fails:
  assumes "band \<notin> dom gamma0" "binning \<noteq> 0"
  shows "snr sci_mu band total_exp_time sub_exp_time binning N round_up = Inl KeyError
    \<and> etc sci_mu band snr_target sub_exp_time binning N = Some (Inl KeyError)
    \<and> limit band total_exp_time snr_target sub_exp_time binning N round_up = Inl KeyError"
  using assms
  by (simp add: snr_def etc_def etc_start_def limit_def limit_quadratic_def py_div_def
      and_then_def unknown_band_rates)

theorem unknown_band_fails_witness:
  "snr 20 ''i'' 600 600 1 1 True = Inl KeyError
    \<and> etc 20 ''i'' 5 600 1 1 = Some (Inl KeyError)
    \<and> limit ''i'' 600 5 600 1 1 True = Inl KeyError"
proof -
  have b: "''i'' \<notin> dom gamma0" by (simp add: gamma0_def)
  have n: "(1::real) \<noteq> 0" by simp
  show ?thesis by (rule unknown_band_fails[OF b n])
qed

section \<open>Claims about invalid arguments\<close>

text \<open>
  Claim C7, as stated: \<open>snr\<close> fails for every binning that is not positive. It does not:
  with a binning of zero it returns the number zero.
\<close>

theorem snr_zero_binning_returns: "snr 20 ''g'' 600 600 0 1 True = Inr 0"
proof -
  have b: "''g'' \<in> dom gamma0" by (simp add: gamma0_def)
  from snr_positive_ratio[OF b, of 1 600 600 20 True]
  show ?thesis by auto
qed

text \<open>
  Claim C7, amended. \<open>snr\<close> checks none of its arguments; what fails is the arithmetic.
  For a band of the tables and \<open>N\<close> not negative: a sub-exposure time of zero raises
  \<open>ZeroDivisionError\<close>; a total exposure time that is not positive, with a positive
  sub-exposure time, raises \<open>ZeroDivisionError\<close> or \<open>ValueError\<close>; with positive
  times a binning that is not positive and an \<open>N\<close> of zero are accepted, the result is
  \<open>binning * signal / noise\<close>: zero for a binning of zero or an \<open>N\<close> of zero, and
  not positive for a negative binning.
\<close>

theorem snr_no_validation:
  assumes "band \<in> dom gamma0" "0 \<le> N"
  shows "(sub_exp_time = 0 \<longrightarrow>
            snr sci_mu band total_exp_time sub_exp_time binning N round_up = Inl ZeroDivisionError)
    \<and> (total_exp_time \<le> 0 \<and> 0 < sub_exp_time \<longrightarrow>
            snr sci_mu band total_exp_time sub_exp_time binning N round_up
              \<in> {Inl ZeroDivisionError, Inl ValueError})
    \<and> (0 < total_exp_time \<and> 0 < sub_exp_time \<longrightarrow>
            snr sci_mu band total_exp_time sub_exp_time 0 N round_up = Inr 0
          \<and> snr sci_mu band total_exp_time sub_exp_time binning 0 round_up = Inr 0
          \<and> (\<exists>s. snr sci_mu band total_exp_time sub_exp_time binning N round_up = Inr s
                \<and> (binning \<le> 0 \<longrightarrow> s \<le> 0)))"
proof (intro conjI impI)
  assume "sub_exp_time = 0"
  then show "snr sci_mu band total_exp_time sub_exp_time binning N round_up = Inl ZeroDivisionError"
    using snr_zero_sub[OF assms(1)] by simp
next
  assume "total_exp_time \<le> 0 \<and> 0 < sub_exp_time"
  then show "snr sci_mu band total_exp_time sub_exp_time binning N round_up
              \<in> {Inl ZeroDivisionError, Inl ValueError}"
    using snr_nonpositive_time[OF assms, of total_exp_time sub_exp_time] by auto
next
  assume p: "0 < total_exp_time \<and> 0 < sub_exp_time"
  from snr_positive_ratio[OF assms, of total_exp_time sub_exp_time sci_mu round_up] p
  show "snr sci_mu band total_exp_time sub_exp_time 0 N round_up = Inr 0"
    by auto
  from snr_positive_ratio[OF assms(1), of 0 total_exp_time sub_exp_time sci_mu round_up] p
  show "snr sci_mu band total_exp_time sub_exp_time binning 0 round_up = Inr 0"
    by auto
  from snr_positive_ratio[OF assms, of total_exp_time sub_exp_time sci_mu round_up] p
  obtain u where u: "0 \<le> u"
      "snr sci_mu band total_exp_time sub_exp_time binning N round_up = Inr (binning * u)"
    by blast
  have "binning \<le> 0 \<longrightarrow> binning * u \<le> 0" using u(1) by (simp add: mult_nonpos_nonneg)
  with u(2)
  show "\<exists>s. snr sci_mu band total_exp_time sub_exp_time binning N round_up = Inr s
                \<and> (binning \<le> 0 \<longrightarrow> s \<le> 0)"
    by blast
qed

theorem snr_no_validation_witness:
  "snr 20 ''g'' 600 0 1 1 True = Inl ZeroDivisionError
   \<and> snr 20 ''g'' (- 600) 600 1 1 True \<in> {Inl ZeroDivisionError, Inl ValueError}
   \<and> snr 20 ''g'' 600 600 0 1 True = Inr 0
   \<and> snr 20 ''g'' 600 600 (- 1) 0 True = Inr 0
   \<and> (\<exists>s. snr 20 ''g'' 600 600 (- 1) 1 True = Inr s \<and> s \<le> 0)"
proof -
  have b: "''g'' \<in> dom gamma0" by (simp add: gamma0_def)
  have n: "(0::real) \<le> 1" "(0::real) \<le> 0" by simp_all
  show ?thesis
    using snr_no_validation[OF b n(1), of 0 20 600 1 True]
      snr_no_validation[OF b n(1), of 600 20 "- 600" 1 True]
      snr_no_validation[OF b n(1), of 600 20 600 "- 1" True]
      snr_no_validation[OF b n(2), of 600 20 600 "- 1" True]
    by simp
qed

section \<open>Monotonicity of \<open>snr\<close>\<close>

text \<open>
  Claim C5, as stated: \<open>snr\<close> increases with the total exposure time. With \<open>round_up\<close>
  off it does not: 600 seconds in sub-exposures of 600 seconds is one sub-exposure, 601
  seconds is two, and the read noise of the second one lowers the result.
\<close>

theorem snr_drops_at_extra_sub:
  "result_less (snr 25 ''g'' 601 600 1 1 False) (snr 25 ''g'' 600 600 1 1 False)"
proof -
  obtain rk where k: "rate_sky ''g'' 1 = Inr rk" "0 < rk" "rk < 7"
    using rates_g_25(2) by blast
  define rs :: real where "rs = 6086 / 100000"
  have r: "rate_sci ''g'' 1 25 = Inr rs" "0 \<le> rs" "0 \<le> rk"
    using rates_g_25(1) k(2) by (simp_all add: rs_def)
  have c: "\<lceil>600 / 600 :: real\<rceil> = 1" "\<lceil>601 / 600 :: real\<rceil> = 2" by simp_all
  have v1: "snr 25 ''g'' 600 600 1 1 False
      = Inr (rs * 600 / sqrt (rs * 600 + rk * 600 + dark_current * 600 + 1 * read_noise\<^sup>2))"
    using snr_value[OF r(1) k(1) _ _ r(2,3), of 600 600 1 False] by (simp add: c)
  have v2: "snr 25 ''g'' 601 600 1 1 False
      = Inr (rs * 601 / sqrt (rs * 601 + rk * 601 + dark_current * 601 + 2 * read_noise\<^sup>2))"
    using snr_value[OF r(1) k(1) _ _ r(2,3), of 601 600 1 False] by (simp add: c)
  have "rs * 601 / sqrt (rs * 601 + rk * 601 + dark_current * 601 + 2 * read_noise\<^sup>2)
      < rs * 600 / sqrt (rs * 600 + rk * 600 + dark_current * 600 + 1 * read_noise\<^sup>2)"
  proof (rule ratio_sqrt_less)
    show "0 < rs * 601 + rk * 601 + dark_current * 601 + 2 * read_noise\<^sup>2"
      using k(2) by (simp add: rs_def dark_current_def read_noise_def add_pos_pos)
    show "0 < rs * 600 + rk * 600 + dark_current * 600 + 1 * read_noise\<^sup>2"
      using k(2) by (simp add: rs_def dark_current_def read_noise_def add_pos_pos)
    show "0 < rs * 600" by (simp add: rs_def)
    show "(rs * 601)\<^sup>2 * (rs * 600 + rk * 600 + dark_current * 600 + 1 * read_noise\<^sup>2)
        < (rs * 600)\<^sup>2 * (rs * 601 + rk * 601 + dark_current * 601 + 2 * read_noise\<^sup>2)"
      using k(2,3) by (simp add: rs_def dark_current_def read_noise_def power2_eq_square)
  qed
  then show ?thesis unfolding v1 v2 result_less_Inr .
qed

text \<open>
  Claim C5, amended. For a band of the tables, a positive sub-exposure time, positive \<open>N\<close>
  and positive binning: with \<open>round_up\<close> on, \<open>snr\<close> does not decrease when the total
  exposure time grows; with \<open>round_up\<close> off it increases strictly between two total
  exposure times that need the same number of sub-exposures. For a positive total
  exposure time it increases strictly with the binning and decreases strictly when the
  magnitude of the source grows.
\<close>

theorem snr_monotone:
  assumes "band \<in> dom gamma0" "0 < sub_exp_time" "0 < N" "0 < binning" "0 < t"
  shows "(0 < t1 \<and> t1 \<le> t2 \<longrightarrow>
            result_le (snr sci_mu band t1 sub_exp_time binning N True)
                      (snr sci_mu band t2 sub_exp_time binning N True))
    \<and> (0 < t1 \<and> t1 < t2 \<and> \<lceil>t1 / sub_exp_time\<rceil> = \<lceil>t2 / sub_exp_time\<rceil> \<longrightarrow>
            result_less (snr sci_mu band t1 sub_exp_time binning N False)
                        (snr sci_mu band t2 sub_exp_time binning N False))
    \<and> (b1 < b2 \<longrightarrow>
            result_less (snr sci_mu band t sub_exp_time b1 N round_up)
                        (snr sci_mu band t sub_exp_time b2 N round_up))
    \<and> (mu1 < mu2 \<longrightarrow>
            result_less (snr mu2 band t sub_exp_time binning N round_up)
                        (snr mu1 band t sub_exp_time binning N round_up))"
  using snr_round_up_mono[OF assms(1,3,2,4), of t1 t2 sci_mu]
    snr_same_subs_mono[OF assms(1,3,2,4), of t1 t2 sci_mu]
    snr_binning_mono[OF assms(1,3,2,5), of b1 b2 sci_mu round_up]
    snr_magnitude_antimono[OF assms(1,3,2,5,4), of mu1 mu2 round_up]
  by blast

theorem snr_monotone_witness:
  "result_le (snr 25 ''g'' 100 30 1 1 True) (snr 25 ''g'' 130 30 1 1 True)
   \<and> result_less (snr 25 ''g'' 100 30 1 1 False) (snr 25 ''g'' 110 30 1 1 False)
   \<and> result_less (snr 25 ''g'' 600 30 1 1 True) (snr 25 ''g'' 600 30 2 1 True)
   \<and> result_less (snr 26 ''g'' 600 30 1 1 True) (snr 25 ''g'' 600 30 1 1 True)"
proof -
  have b: "''g'' \<in> dom gamma0" by (simp add: gamma0_def)
  have p: "(0::real) < 30" "(0::real) < 1" "(0::real) < 600" by simp_all
  show ?thesis
    using snr_monotone[OF b p(1) p(2) p(2) p(3), of 100 130 25 1 2 True 25 26]
      snr_monotone[OF b p(1) p(2) p(2) p(3), of 100 110 25 1 2 True 25 26]
    by simp
qed

section \<open>Claims about \<open>limit\<close>\<close>

text \<open>
  Claim C4. \<open>limit\<close> inverts \<open>snr\<close>: for a band of the tables, positive times, positive
  \<open>N\<close> and a binning other than zero, \<open>snr\<close> returns a number, and \<open>limit\<close> at this
  number, with the same other arguments, returns the magnitude \<open>snr\<close> was given. When
  the total exposure time is a whole multiple of the sub-exposure time this holds
  whatever the two \<open>round_up\<close> flags are, so in particular with \<open>round_up\<close> off in
  \<open>snr\<close> and the default binning and \<open>N\<close> of one.
\<close>

theorem limit_inverts_snr:
  assumes "band \<in> dom gamma0" "0 < total_exp_time" "0 < sub_exp_time" "0 < N" "binning \<noteq> 0"
  shows "(\<exists>s. snr sci_mu band total_exp_time sub_exp_time binning N round_up = Inr s
            \<and> limit band total_exp_time s sub_exp_time binning N round_up = Inr sci_mu)
    \<and> (total_exp_time = of_int \<lceil>total_exp_time / sub_exp_time\<rceil> * sub_exp_time \<longrightarrow>
         (\<exists>s. snr sci_mu band total_exp_time sub_exp_time binning N False = Inr s
            \<and> limit band total_exp_time s sub_exp_time binning N round_up = Inr sci_mu))"
proof -
  have s0: "sub_exp_time \<noteq> 0" using assms(3) by simp
  have "\<exists>s. snr sci_mu band total_exp_time sub_exp_time binning N False = Inr s
            \<and> limit band total_exp_time s sub_exp_time binning N round_up = Inr sci_mu"
    if "total_exp_time = of_int \<lceil>total_exp_time / sub_exp_time\<rceil> * sub_exp_time"
    using round_trip_core[OF assms, of sci_mu False]
      exact_multiple_flag(2)[OF s0 that, of band _ binning N False round_up]
    by auto
  with round_trip_core[OF assms, of sci_mu round_up] show ?thesis by blast
qed

theorem limit_inverts_snr_witness:
  "(\<exists>s. snr 25 ''g'' 1200 600 1 1 False = Inr s \<and> limit ''g'' 1200 s 600 1 1 False = Inr 25)
   \<and> (1200 :: real) = of_int \<lceil>1200 / 600 :: real\<rceil> * 600
   \<and> (\<exists>s. snr 25 ''g'' 1200 600 1 1 False = Inr s \<and> limit ''g'' 1200 s 600 1 1 True = Inr 25)"
proof -
  have b: "''g'' \<in> dom gamma0" by (simp add: gamma0_def)
  have p: "(0::real) < 1200" "(0::real) < 600" "(0::real) < 1" "(1::real) \<noteq> 0" by simp_all
  have m: "(1200 :: real) = of_int \<lceil>1200 / 600 :: real\<rceil> * 600" by simp
  show ?thesis
    using limit_inverts_snr[OF b p, of 25 False] limit_inverts_snr[OF b p, of 25 True] m
    by blast
qed

text \<open>
  Claim C3, as stated: some known band, positive exposure time and target make the
  discriminant \<open>b\<^sup>2 - 4 * a * c\<close> of line 103 negative. There are none: for positive
  times, positive \<open>N\<close> and a binning other than zero, \<open>a\<close> is a square and \<open>c\<close> is
  the negative of a square times a sum of counts that are not negative, whatever the
  target.
\<close>

theorem limit_discriminant_never_negative:
  "\<not> (\<exists>band total_exp_time snr_target sub_exp_time binning N round_up q.
        band \<in> dom gamma0 \<and> 0 < total_exp_time \<and> 0 < sub_exp_time \<and> 0 < N \<and> binning \<noteq> 0
        \<and> limit_quadratic band total_exp_time snr_target sub_exp_time binning N round_up = Inr q
        \<and> discriminant q < 0)"
proof
  assume "\<exists>band total_exp_time snr_target sub_exp_time binning N round_up q.
        band \<in> dom gamma0 \<and> 0 < total_exp_time \<and> 0 < sub_exp_time \<and> 0 < N \<and> binning \<noteq> 0
        \<and> limit_quadratic band total_exp_time snr_target sub_exp_time binning N round_up = Inr q
        \<and> discriminant q < 0"
  then obtain band t T sub b N ru q where h: "band \<in> dom gamma0" "0 < t" "0 < sub" "0 < N" "b \<noteq> 0"
      "limit_quadratic band t T sub b N ru = Inr q" "discriminant q < 0"
    by blast
  obtain a bq c where q: "q = (a, bq, c)" by (cases q)
  note s = limit_quadratic_signs[OF h(1-5) h(6)[unfolded q]]
  have "0 \<le> discriminant (a, bq, c)" using s by (rule discriminant_signs)
  with h(7) show False by (simp add: q)
qed

text \<open>
  Claim C3, amended. For a band of the tables, positive times, positive \<open>N\<close> and a
  binning other than zero, whatever the target: whenever lines 83 to 102 give the
  coefficients, \<open>a\<close> is not negative and \<open>c\<close> is not positive, so the discriminant is
  not negative and the square root of line 103 does not raise. Nothing is stated on
  whether \<open>limit\<close> then returns.
\<close>

theorem limit_discriminant_nonneg:
  assumes "band \<in> dom gamma0" "0 < total_exp_time" "0 < sub_exp_time" "0 < N" "binning \<noteq> 0"
    and "limit_quadratic band total_exp_time snr_target sub_exp_time binning N round_up
           = Inr (a, b, c)"
  shows "0 \<le> a \<and> c \<le> 0 \<and> 0 \<le> discriminant (a, b, c)
    \<and> py_sqrt (discriminant (a, b, c)) = Inr (sqrt (discriminant (a, b, c)))"
proof -
  note s = limit_quadratic_signs[OF assms]
  have "0 \<le> discriminant (a, b, c)" using s by (rule discriminant_signs)
  then show ?thesis using s by (simp add: py_sqrt_def)
qed

theorem limit_discriminant_nonneg_witness:
  "\<exists>a b c. limit_quadratic ''g'' (1 / 1000) 1000000000 600 1 1 True = Inr (a, b, c)
     \<and> 0 \<le> a \<and> c \<le> 0 \<and> 0 \<le> discriminant (a, b, c)
     \<and> py_sqrt (discriminant (a, b, c)) = Inr (sqrt (discriminant (a, b, c)))"
proof -
  have g: "''g'' \<in> dom gamma0" by (simp add: gamma0_def)
  have p: "(0::real) < 1 / 1000" "(0::real) < 600" "(0::real) < 1" "(1::real) \<noteq> 0" by simp_all
  obtain rk where k: "rate_sky ''g'' 1 = Inr rk"
    using rates_g_25(2) by blast
  from limit_quadratic_value[OF k p(4) p(1,2), of 1000000000 True]
  obtain a b c where q: "limit_quadratic ''g'' (1 / 1000) 1000000000 600 1 1 True = Inr (a, b, c)"
    by blast
  from limit_discriminant_nonneg[OF g p q] q show ?thesis by blast
qed

section \<open>Claims about \<open>etc\<close>\<close>




end
